theory Spec2Isabelle
  imports Complex_Main
begin

section \<open>The TextRank preprocessing endpoint of the kiwi service\<close>

text \<open>
  A shallow embedding of \<^verbatim>\<open>textrank_endpoint.py\<close>: the input validator
  \<^verbatim>\<open>validate_input\<close> and the request handler \<^verbatim>\<open>preprocess_for_textrank\<close>
  that \<^verbatim>\<open>create_textrank_preprocessing_endpoint\<close> builds around a Kiwi instance.

  Conventions of the embedding.
  \<^item> A Python \<^verbatim>\<open>str\<close> is the list of its Unicode code points.
  \<^item> The parsed JSON payload (\<^verbatim>\<open>request.json\<close>) is a value of the datatype \<open>json\<close>;
    Python's \<^verbatim>\<open>None\<close> is \<open>JNull\<close>.
  \<^item> A raised exception is the left summand of a result; each \<^verbatim>\<open>try/except\<close> of the
    source is a case distinction on such a result.
  \<^item> The Kiwi instance is a pair of functions (sentence splitter and analyzer) that either
    raise or return values of the types kiwipiepy documents.
  \<^item> \<^verbatim>\<open>str.lower\<close>, the true division of two integers and the request id (a formatted
    clock reading) come from the Python runtime and are parameters.
  \<^item> Log output is not part of the model.
\<close>

subsection \<open>Strings\<close>

type_synonym str = "nat list"

definition ascii :: "string \<Rightarrow> str" where
  "ascii s = map of_char s"

text \<open>\<^verbatim>\<open>str.isspace\<close> of a single character, as CPython decides it.\<close>

definition isspace :: "nat \<Rightarrow> bool" where
  "isspace c \<longleftrightarrow>
     (9 \<le> c \<and> c \<le> 13) \<or> (28 \<le> c \<and> c \<le> 32) \<or> c = 133 \<or> c = 160 \<or> c = 5760 \<or>
     (8192 \<le> c \<and> c \<le> 8202) \<or> c = 8232 \<or> c = 8233 \<or> c = 8239 \<or> c = 8287 \<or> c = 12288"

text \<open>\<^verbatim>\<open>s.strip()\<close>: leading and trailing whitespace removed.\<close>

definition strip :: "str \<Rightarrow> str" where
  "strip s = rev (dropWhile isspace (rev (dropWhile isspace s)))"

text \<open>\<^verbatim>\<open>s.startswith(p)\<close>.\<close>

definition startswith :: "str \<Rightarrow> str \<Rightarrow> bool" where
  "startswith s p \<longleftrightarrow> take (length p) s = p"

subsection \<open>Exceptions\<close>

text \<open>
  Every exception carries the message that \<^verbatim>\<open>str(e)\<close> returns.
  \<open>TextRankPreprocessingError\<close> is the class the module defines; \<open>AttributeError\<close> and
  \<open>IndexError\<close> are raised by the interpreter; \<open>Exception\<close> stands for whatever subclass of
  \<^verbatim>\<open>Exception\<close> the Kiwi instance raises.
\<close>

datatype exn =
    TextRankPreprocessingError str
  | AttributeError str
  | IndexError str
  | ZeroDivisionError str
  | Exception str

fun str_of_exn :: "exn \<Rightarrow> str" where
  "str_of_exn (TextRankPreprocessingError m) = m"
| "str_of_exn (AttributeError m) = m"
| "str_of_exn (IndexError m) = m"
| "str_of_exn (ZeroDivisionError m) = m"
| "str_of_exn (Exception m) = m"

text \<open>\<^verbatim>\<open>xs[i]\<close> on a list, for an index that is not negative.\<close>

definition getitem :: "'a list \<Rightarrow> nat \<Rightarrow> exn + 'a" where
  "getitem xs i =
     (if i < length xs then Inr (xs ! i) else Inl (IndexError (ascii ''list index out of range'')))"

subsection \<open>JSON payloads\<close>

text \<open>
  What \<^verbatim>\<open>request.json\<close> can hold. A float is represented by a rational: the endpoint only
  ever tests a float for truth (nonzero), and a non-finite float behaves there like any
  other nonzero one. An object is the list of the items of the parsed \<^verbatim>\<open>dict\<close>.
\<close>

datatype json =
    JNull
  | JBool bool
  | JInt int
  | JFloat rat
  | JStr str
  | JArr "json list"
  | JObj "(str \<times> json) list"

text \<open>Python truth value testing (\<^verbatim>\<open>not x\<close>, \<^verbatim>\<open>if x:\<close>).\<close>

fun truthy :: "json \<Rightarrow> bool" where
  "truthy JNull = False"
| "truthy (JBool b) = b"
| "truthy (JInt n) = (n \<noteq> 0)"
| "truthy (JFloat x) = (x \<noteq> 0)"
| "truthy (JStr s) = (s \<noteq> [])"
| "truthy (JArr xs) = (xs \<noteq> [])"
| "truthy (JObj kvs) = (kvs \<noteq> [])"

fun type_name :: "json \<Rightarrow> string" where
  "type_name JNull = ''NoneType''"
| "type_name (JBool b) = ''bool''"
| "type_name (JInt n) = ''int''"
| "type_name (JFloat x) = ''float''"
| "type_name (JStr s) = ''str''"
| "type_name (JArr xs) = ''list''"
| "type_name (JObj kvs) = ''dict''"

text \<open>
  \<^verbatim>\<open>data.get(key, default)\<close>: only a \<^verbatim>\<open>dict\<close> has the attribute \<^verbatim>\<open>get\<close>; on any other
  value the attribute lookup raises.
\<close>

fun json_get :: "json \<Rightarrow> str \<Rightarrow> json \<Rightarrow> exn + json" where
  "json_get (JObj kvs) key dflt = Inr (case map_of kvs key of None \<Rightarrow> dflt | Some v \<Rightarrow> v)"
| "json_get d key dflt =
     Inl (AttributeError (ascii ([CHR 0x27] @ type_name d @ [CHR 0x27] @
       '' object has no attribute '' @ [CHR 0x27] @ ''get'' @ [CHR 0x27])))"

subsection \<open>Constants of the module\<close>

text \<open>The forty string literals of \<^verbatim>\<open>KOREAN_STOPWORDS\<close>, in source order (three repeat).\<close>

definition KOREAN_STOPWORDS :: "str set" where
  "KOREAN_STOPWORDS =
    {[51060], [44536], [51200], [44163], [49688], [46321], [46308], [48143], [50640],
     [50640, 49436], [51032], [51012], [47484],
     [51060, 45796], [51080, 45796], [54616, 45796], [51060, 47088], [44536, 47088],
     [51200, 47088], [54620], [51060], [44536], [51200], [50752], [44284],
     [51004, 47196], [47196], [50640, 44172], [49104], [45796], [46020], [47564],
     [44620, 51648], [50640, 45716], [46993], [51060, 46972], [47728],
     [44144, 45208], [50640, 46020], [46304, 51648]}"

text \<open>The four messages of the validator: request data is empty; text was not provided;
  text must be a string; text is empty.\<close>

definition msg_request_empty :: str where
  "msg_request_empty =
     [50836, 52397, 32, 45936, 51060, 53552, 44032, 32, 48708, 50612, 51080, 49845, 45768, 45796]"

definition msg_text_missing :: str where
  "msg_text_missing =
     [53581, 49828, 53944, 44032, 32, 51228, 44277, 46104, 51648, 32, 50506, 50520, 49845,
      45768, 45796]"

definition msg_text_not_str :: str where
  "msg_text_not_str =
     [53581, 49828, 53944, 45716, 32, 47928, 51088, 50676, 51060, 50612, 50556, 32, 54633,
      45768, 45796]"

definition msg_text_blank :: str where
  "msg_text_blank =
     [53581, 49828, 53944, 44032, 32, 48708, 50612, 51080, 49845, 45768, 45796]"

text \<open>The prefixes of the two error responses (validation error; error during
  preprocessing).\<close>

definition prefix_validation :: str where
  "prefix_validation =
     ascii ''TextRank '' @ [51204, 52376, 47532, 32, 44160, 51613, 32, 50724, 47448, 58, 32]"

definition prefix_internal :: str where
  "prefix_internal =
     ascii ''TextRank '' @
     [51204, 52376, 47532, 32, 51473, 32, 50724, 47448, 32, 48156, 49373, 58, 32]"

definition key_text :: str where
  "key_text = ascii ''text''"

definition key_removeStopwords :: str where
  "key_removeStopwords = ascii ''removeStopwords''"

subsection \<open>validate_input\<close>

definition validate_input :: "json \<Rightarrow> exn + str" where
  "validate_input data =
     (if \<not> truthy data then Inl (TextRankPreprocessingError msg_request_empty)
      else (case json_get data key_text JNull of
        Inl e \<Rightarrow> Inl e
      | Inr text \<Rightarrow>
          if \<not> truthy text then Inl (TextRankPreprocessingError msg_text_missing)
          else (case text of
              JStr s \<Rightarrow>
                if length (strip s) = 0 then Inl (TextRankPreprocessingError msg_text_blank)
                else Inr s
            | _ \<Rightarrow> Inl (TextRankPreprocessingError msg_text_not_str))))"

subsection \<open>The Kiwi instance\<close>

text \<open>
  The handler uses two methods of the instance it closes over. \<^verbatim>\<open>split_into_sents\<close>
  returns sentence objects, of which the handler reads \<^verbatim>\<open>.text\<close>. \<^verbatim>\<open>analyze\<close> returns
  the candidate analyses, best first, each a pair of a token list and a score; of a token
  the handler reads item 0 (the form) and item 1 (the tag). Either method may raise.
\<close>

datatype sentence_obj = Sentence (text_of: str)

record token =
  form :: str
  tag :: str
  start :: nat
  len :: nat

record 's kiwi =
  split_into_sents :: "str \<Rightarrow> exn + sentence_obj list"
  analyze :: "str \<Rightarrow> exn + (token list \<times> 's) list"

subsection \<open>Processing one sentence\<close>

record processed_sentence =
  index :: nat
  sentence :: str
  tokens :: "str list"
  normalized :: "str list"
  posTags :: "str list"
  tokenCount :: nat

text \<open>The loop over the morphemes of the chosen analysis: three appends per morpheme.\<close>

fun morpheme_loop ::
  "(str \<Rightarrow> str) \<Rightarrow> token list \<Rightarrow> str list \<times> str list \<times> str list \<Rightarrow>
   str list \<times> str list \<times> str list" where
  "morpheme_loop lower [] acc = acc"
| "morpheme_loop lower (morpheme # rest) (ts, ns, ps) =
     morpheme_loop lower rest
       (ts @ [form morpheme], ns @ [lower (form morpheme)], ps @ [tag morpheme])"

text \<open>
  The stopword loop: it runs over \<^verbatim>\<open>enumerate(normalized)\<close> and, for a kept position,
  reads the three lists by index.
\<close>

fun stopword_loop ::
  "str list \<Rightarrow> str list \<Rightarrow> str list \<Rightarrow> (nat \<times> str) list \<Rightarrow>
   str list \<times> str list \<times> str list \<Rightarrow> exn + (str list \<times> str list \<times> str list)" where
  "stopword_loop ts ns ps [] acc = Inr acc"
| "stopword_loop ts ns ps ((i, t) # rest) (ft, fn, fp) =
     (if t \<notin> KOREAN_STOPWORDS then
        (case getitem ts i of Inl e \<Rightarrow> Inl e | Inr a \<Rightarrow>
        (case getitem ns i of Inl e \<Rightarrow> Inl e | Inr b \<Rightarrow>
        (case getitem ps i of Inl e \<Rightarrow> Inl e | Inr c \<Rightarrow>
           stopword_loop ts ns ps rest (ft @ [a], fn @ [b], fp @ [c]))))
      else stopword_loop ts ns ps rest (ft, fn, fp))"

text \<open>
  The body of the inner \<^verbatim>\<open>try\<close> for the sentence \<^verbatim>\<open>sent_text\<close> at position \<^verbatim>\<open>idx\<close>:
  the record it appends, or the exception it raises.
\<close>

definition process_sentence ::
  "(str \<Rightarrow> str) \<Rightarrow> 's kiwi \<Rightarrow> json \<Rightarrow> nat \<Rightarrow> str \<Rightarrow> exn + processed_sentence" where
  "process_sentence lower kiwi remove_stopwords idx sent_text =
     (case analyze kiwi sent_text of Inl e \<Rightarrow> Inl e | Inr candidates \<Rightarrow>
     (case getitem candidates 0 of Inl e \<Rightarrow> Inl e | Inr best \<Rightarrow>
     (case morpheme_loop lower (fst best) ([], [], []) of (ts, ns, ps) \<Rightarrow>
     (case (if truthy remove_stopwords
            then stopword_loop ts ns ps (List.enumerate 0 ns) ([], [], [])
            else Inr (ts, ns, ps)) of
        Inl e \<Rightarrow> Inl e
      | Inr (ft, fn, fp) \<Rightarrow>
          Inr \<lparr>index = idx, sentence = sent_text, tokens = ft, normalized = fn,
               posTags = fp, tokenCount = length ft\<rparr>))))"

text \<open>
  The loop over \<^verbatim>\<open>enumerate(sentence_texts)\<close>: whatever the body raises is caught and
  the loop goes on with the next sentence.
\<close>

fun sentence_loop ::
  "(str \<Rightarrow> str) \<Rightarrow> 's kiwi \<Rightarrow> json \<Rightarrow> (nat \<times> str) list \<Rightarrow> processed_sentence list \<Rightarrow>
   processed_sentence list" where
  "sentence_loop lower kiwi remove_stopwords [] processed_sentences = processed_sentences"
| "sentence_loop lower kiwi remove_stopwords ((idx, sent_text) # rest) processed_sentences =
     (case process_sentence lower kiwi remove_stopwords idx sent_text of
        Inl e \<Rightarrow> sentence_loop lower kiwi remove_stopwords rest processed_sentences
      | Inr record \<Rightarrow>
          sentence_loop lower kiwi remove_stopwords rest (processed_sentences @ [record]))"

subsection \<open>Key terms\<close>

definition is_key_tag :: "str \<Rightarrow> bool" where
  "is_key_tag t \<longleftrightarrow>
     startswith t (ascii ''N'') \<or> startswith t (ascii ''V'') \<or> t = ascii ''VA''"

fun key_terms_of_sentence ::
  "processed_sentence \<Rightarrow> (nat \<times> str) list \<Rightarrow> str set \<Rightarrow> exn + str set" where
  "key_terms_of_sentence s [] key_terms = Inr key_terms"
| "key_terms_of_sentence s ((i, t) # rest) key_terms =
     (if is_key_tag t then
        (case getitem (normalized s) i of
           Inl e \<Rightarrow> Inl e
         | Inr n \<Rightarrow> key_terms_of_sentence s rest (insert n key_terms))
      else key_terms_of_sentence s rest key_terms)"

fun key_terms_loop :: "processed_sentence list \<Rightarrow> str set \<Rightarrow> exn + str set" where
  "key_terms_loop [] key_terms = Inr key_terms"
| "key_terms_loop (s # rest) key_terms =
     (case key_terms_of_sentence s (List.enumerate 0 (posTags s)) key_terms of
        Inl e \<Rightarrow> Inl e
      | Inr key_terms' \<Rightarrow> key_terms_loop rest key_terms')"

subsection \<open>Statistics\<close>

text \<open>
  A number of the response is a Python \<^verbatim>\<open>int\<close> or a \<^verbatim>\<open>float\<close>. The quotient of two
  integers is whatever float the runtime's division \<open>fdiv\<close> returns; dividing by zero raises.
\<close>

datatype 'f number = PyInt int | PyFloat 'f

definition truediv :: "(nat \<Rightarrow> nat \<Rightarrow> 'f) \<Rightarrow> nat \<Rightarrow> nat \<Rightarrow> exn + 'f" where
  "truediv fdiv a b =
     (if b = 0 then Inl (ZeroDivisionError (ascii ''division by zero'')) else Inr (fdiv a b))"

record 'f stats =
  totalTokens :: nat
  avgTokensPerSentence :: "'f number"
  keyTermCount :: nat

definition compute_stats ::
  "(nat \<Rightarrow> nat \<Rightarrow> 'f) \<Rightarrow> processed_sentence list \<Rightarrow> str set \<Rightarrow> exn + 'f stats" where
  "compute_stats fdiv processed_sentences key_terms =
     (case (if processed_sentences \<noteq> []
            then (case truediv fdiv (sum_list (map tokenCount processed_sentences))
                         (length processed_sentences) of
                    Inl e \<Rightarrow> Inl e
                  | Inr q \<Rightarrow> Inr (PyFloat q))
            else Inr (PyInt 0)) of
        Inl e \<Rightarrow> Inl e
      | Inr avg \<Rightarrow>
          Inr \<lparr>totalTokens = sum_list (map tokenCount processed_sentences),
               avgTokensPerSentence = avg,
               keyTermCount = card key_terms\<rparr>)"

subsection \<open>The handler\<close>

text \<open>
  The key terms are a Python \<^verbatim>\<open>set\<close>; the response lists them in the set's iteration
  order, which the program does not control, so the field is the set itself.
\<close>

record 'f preprocessing_result =
  requestId :: str
  sentences :: "str list"
  processedSentences :: "processed_sentence list"
  keyTerms :: "str set"
  sentenceCount :: nat
  stats :: "'f stats"

datatype 'f body = Result "'f preprocessing_result" | Error str str

type_synonym 'f response = "'f body \<times> nat"

text \<open>The outer \<^verbatim>\<open>try\<close> block: the response data, or the exception that leaves it.\<close>

definition try_block ::
  "(str \<Rightarrow> str) \<Rightarrow> (nat \<Rightarrow> nat \<Rightarrow> 'f) \<Rightarrow> 's kiwi \<Rightarrow> str \<Rightarrow> json \<Rightarrow>
   exn + 'f preprocessing_result" where
  "try_block lower fdiv kiwi request_id data =
     (case validate_input data of Inl e \<Rightarrow> Inl e | Inr text \<Rightarrow>
     (case json_get data key_removeStopwords (JBool True) of
        Inl e \<Rightarrow> Inl e
      | Inr remove_stopwords \<Rightarrow>
     (case split_into_sents kiwi text of Inl e \<Rightarrow> Inl e | Inr sents \<Rightarrow>
     (let sentence_texts = map text_of sents;
          processed_sentences =
            sentence_loop lower kiwi remove_stopwords (List.enumerate 0 sentence_texts) []
      in (case key_terms_loop processed_sentences {} of
            Inl e \<Rightarrow> Inl e
          | Inr key_terms \<Rightarrow>
         (case compute_stats fdiv processed_sentences key_terms of
            Inl e \<Rightarrow> Inl e
          | Inr st \<Rightarrow>
              Inr \<lparr>requestId = request_id,
                   sentences = sentence_texts,
                   processedSentences = processed_sentences,
                   keyTerms = key_terms,
                   sentenceCount = length sentence_texts,
                   stats = st\<rparr>))))))"

text \<open>
  \<^verbatim>\<open>preprocess_for_textrank\<close>: the response body and its HTTP status (200 where the
  source returns the body alone).
\<close>

definition preprocess_for_textrank ::
  "(str \<Rightarrow> str) \<Rightarrow> (nat \<Rightarrow> nat \<Rightarrow> 'f) \<Rightarrow> 's kiwi \<Rightarrow> str \<Rightarrow> json \<Rightarrow> 'f response" where
  "preprocess_for_textrank lower fdiv kiwi request_id data =
     (case try_block lower fdiv kiwi request_id data of
        Inr response_data \<Rightarrow> (Result response_data, 200)
      | Inl (TextRankPreprocessingError m) \<Rightarrow>
          (Error (prefix_validation @ str_of_exn (TextRankPreprocessingError m)) request_id, 400)
      | Inl e \<Rightarrow> (Error (prefix_internal @ str_of_exn e) request_id, 500))"

subsection \<open>Auxiliary notions and an example instance\<close>

text \<open>The morphemes of an analysis that survive the stopword step.\<close>

definition kept :: "(str \<Rightarrow> str) \<Rightarrow> json \<Rightarrow> token list \<Rightarrow> token list" where
  "kept lower remove_stopwords ms =
     (if truthy remove_stopwords
      then filter (\<lambda>m. lower (form m) \<notin> KOREAN_STOPWORDS) ms else ms)"

text \<open>
  A small instance on which the theorems below are exercised: lower-casing of the ASCII
  letters, the exact quotient in place of the float, and a Kiwi stand-in that makes one
  sentence of every character that is not white space (and refuses a text with an
  exclamation mark). Its analyzer raises on the sentence \<^verbatim>\<open>x\<close>, returns no candidate for
  \<^verbatim>\<open>e\<close>, and otherwise returns two candidates, the better one made of the sentence as a
  noun, a stopword particle, an adverb and a verb.
\<close>

definition ascii_lower :: "str \<Rightarrow> str" where
  "ascii_lower s = map (\<lambda>c. if 65 \<le> c \<and> c \<le> 90 then c + 32 else c) s"

definition exact_quotient :: "nat \<Rightarrow> nat \<Rightarrow> rat" where
  "exact_quotient a b = of_nat a / of_nat b"

definition example_kiwi :: "int kiwi" where
  "example_kiwi =
     \<lparr>split_into_sents = (\<lambda>text.
        if 33 \<in> set text then Inl (Exception (ascii ''cannot split''))
        else Inr (map (\<lambda>c. Sentence [c]) (filter (\<lambda>c. \<not> isspace c) text))),
      analyze = (\<lambda>s.
        if s = ascii ''x'' then Inl (Exception (ascii ''cannot analyze''))
        else if s = ascii ''e'' then Inr []
        else Inr [([\<lparr>form = s, tag = ascii ''NNG'', start = 0, len = 1\<rparr>,
                    \<lparr>form = [51060], tag = ascii ''JKS'', start = 1, len = 1\<rparr>,
                    \<lparr>form = ascii ''Very'', tag = ascii ''MAG'', start = 3, len = 4\<rparr>,
                    \<lparr>form = ascii ''Go'', tag = ascii ''VV'', start = 8, len = 2\<rparr>], - 1),
                  ([], - 2)])\<rparr>"

definition example_id :: str where
  "example_id = ascii ''20240101_000000_000000''"

definition request_of :: "string \<Rightarrow> json" where
  "request_of s = JObj [(ascii ''text'', JStr (ascii s))]"

definition request_unfiltered :: "string \<Rightarrow> json" where
  "request_unfiltered s =
     JObj [(ascii ''text'', JStr (ascii s)), (ascii ''removeStopwords'', JBool False)]"

section \<open>Properties of the loops\<close>

lemma morpheme_loop_eq:
  "morpheme_loop lower ms (ts, ns, ps) =
     (ts @ map form ms, ns @ map (\<lambda>m. lower (form m)) ms, ps @ map tag ms)"
  by (induction ms arbitrary: ts ns ps) simp_all

lemma stopword_loop_eq:
  assumes "\<forall>e \<in> set es. fst e < length ts \<and> fst e < length ns \<and> fst e < length ps"
  shows "stopword_loop ts ns ps es (ft, fn, fp) =
     Inr (ft @ map ((!) ts) (map fst (filter (\<lambda>e. snd e \<notin> KOREAN_STOPWORDS) es)),
          fn @ map ((!) ns) (map fst (filter (\<lambda>e. snd e \<notin> KOREAN_STOPWORDS) es)),
          fp @ map ((!) ps) (map fst (filter (\<lambda>e. snd e \<notin> KOREAN_STOPWORDS) es)))"
  using assms
proof (induction es arbitrary: ft fn fp)
  case Nil
  show ?case by simp
next
  case (Cons e es)
  obtain i t where e: "e = (i, t)" by (cases e)
  from Cons.prems e have b: "i < length ts" "i < length ns" "i < length ps" by auto
  from Cons.prems have r: "\<forall>e \<in> set es. fst e < length ts \<and> fst e < length ns \<and> fst e < length ps"
    by simp
  show ?case
    using b Cons.IH [OF r] by (simp add: e getitem_def)
qed

lemma enumerate_kept:
  "map fst (filter (\<lambda>e. P (snd e)) (List.enumerate 0 xs)) = filter (\<lambda>i. P (xs ! i)) [0..<length xs]"
proof -
  let ?zs = "zip [0..<length xs] xs"
  have "filter (\<lambda>e. P (snd e)) ?zs = filter (\<lambda>e. P (xs ! fst e)) ?zs"
    by (rule filter_cong) (auto simp: in_set_zip)
  moreover have "filter (\<lambda>i. P (xs ! i)) (map fst ?zs) = map fst (filter ((\<lambda>i. P (xs ! i)) \<circ> fst) ?zs)"
    by (rule filter_map)
  moreover have "map fst ?zs = [0..<length xs]"
    by simp
  ultimately show ?thesis
    by (simp only: enumerate_eq_zip comp_def add_0)
qed

lemma nth_filter_map:
  "map (\<lambda>i. f (ms ! i)) (filter (\<lambda>i. P (ms ! i)) [0..<length ms]) = map f (filter P ms)"
proof -
  have "map f (filter P (map ((!) ms) [0..<length ms])) =
        map (\<lambda>i. f (ms ! i)) (filter (\<lambda>i. P (ms ! i)) [0..<length ms])"
    by (simp add: filter_map comp_def)
  then show ?thesis by (simp add: map_nth)
qed


lemma stopword_loop_enumerate:
  assumes "length ts = length ns" and "length ps = length ns"
  shows "stopword_loop ts ns ps (List.enumerate 0 ns) ([], [], []) =
     Inr (map ((!) ts) (filter (\<lambda>i. ns ! i \<notin> KOREAN_STOPWORDS) [0..<length ns]),
          map ((!) ns) (filter (\<lambda>i. ns ! i \<notin> KOREAN_STOPWORDS) [0..<length ns]),
          map ((!) ps) (filter (\<lambda>i. ns ! i \<notin> KOREAN_STOPWORDS) [0..<length ns]))"
proof -
  have "\<forall>e \<in> set (List.enumerate 0 ns).
          fst e < length ts \<and> fst e < length ns \<and> fst e < length ps"
    using assms by (simp add: in_set_enumerate_eq)
  from stopword_loop_eq [OF this, of "[]" "[]" "[]"] show ?thesis
    by (simp only: enumerate_kept [of "\<lambda>t. t \<notin> KOREAN_STOPWORDS" ns] append_Nil)
qed

lemma process_sentence_eq:
  "process_sentence lower kiwi rs idx s =
     (case analyze kiwi s of
        Inl e \<Rightarrow> Inl e
      | Inr [] \<Rightarrow> Inl (IndexError (ascii ''list index out of range''))
      | Inr (best # others) \<Rightarrow>
          Inr \<lparr>index = idx, sentence = s,
               tokens = map form (kept lower rs (fst best)),
               normalized = map (\<lambda>m. lower (form m)) (kept lower rs (fst best)),
               posTags = map tag (kept lower rs (fst best)),
               tokenCount = length (kept lower rs (fst best))\<rparr>)"
proof (cases "analyze kiwi s")
  case (Inl e)
  then show ?thesis by (simp add: process_sentence_def)
next
  case (Inr cs)
  show ?thesis
  proof (cases cs)
    case Nil
    with Inr show ?thesis by (simp add: process_sentence_def getitem_def)
  next
    case (Cons best others)
    let ?ms = "fst best"
    let ?ts = "map form ?ms" and ?ns = "map (\<lambda>m. lower (form m)) ?ms" and ?ps = "map tag ?ms"
    have ml: "morpheme_loop lower ?ms ([], [], []) = (?ts, ?ns, ?ps)"
      by (simp add: morpheme_loop_eq)
    have sl: "stopword_loop ?ts ?ns ?ps (List.enumerate 0 ?ns) ([], [], []) =
      Inr (map form (filter (\<lambda>m. lower (form m) \<notin> KOREAN_STOPWORDS) ?ms),
           map (\<lambda>m. lower (form m)) (filter (\<lambda>m. lower (form m) \<notin> KOREAN_STOPWORDS) ?ms),
           map tag (filter (\<lambda>m. lower (form m) \<notin> KOREAN_STOPWORDS) ?ms))"
    proof -
      have idx: "filter (\<lambda>i. ?ns ! i \<notin> KOREAN_STOPWORDS) [0..<length ?ns] =
                 filter (\<lambda>i. lower (form (?ms ! i)) \<notin> KOREAN_STOPWORDS) [0..<length ?ms]"
        by (rule filter_cong) simp_all
      have m: "map ((!) (map f ?ms))
                 (filter (\<lambda>i. lower (form (?ms ! i)) \<notin> KOREAN_STOPWORDS) [0..<length ?ms]) =
               map f (filter (\<lambda>m. lower (form m) \<notin> KOREAN_STOPWORDS) ?ms)"
        for f :: "token \<Rightarrow> str"
      proof -
        have "map ((!) (map f ?ms))
                 (filter (\<lambda>i. lower (form (?ms ! i)) \<notin> KOREAN_STOPWORDS) [0..<length ?ms]) =
              map (\<lambda>i. f (?ms ! i))
                 (filter (\<lambda>i. lower (form (?ms ! i)) \<notin> KOREAN_STOPWORDS) [0..<length ?ms])"
          by (rule map_cong) simp_all
        also have "\<dots> = map f (filter (\<lambda>m. lower (form m) \<notin> KOREAN_STOPWORDS) ?ms)"
          by (rule nth_filter_map [where P = "\<lambda>m. lower (form m) \<notin> KOREAN_STOPWORDS"])
        finally show ?thesis .
      qed
      have "length ?ts = length ?ns" and "length ?ps = length ?ns" by simp_all
      from stopword_loop_enumerate [OF this] show ?thesis
        by (simp only: idx m)
    qed
    show ?thesis
      using Inr Cons ml sl
      by (simp add: process_sentence_def getitem_def kept_def)
  qed
qed


lemma enumerate_filter_fst:
  "map fst (filter (\<lambda>e. P (fst e) (snd e)) (List.enumerate 0 xs)) =
   filter (\<lambda>i. P i (xs ! i)) [0..<length xs]"
proof -
  let ?zs = "zip [0..<length xs] xs"
  have "filter (\<lambda>e. P (fst e) (snd e)) ?zs = filter (\<lambda>e. P (fst e) (xs ! fst e)) ?zs"
    by (rule filter_cong) (auto simp: in_set_zip)
  moreover have "filter (\<lambda>i. P i (xs ! i)) (map fst ?zs) =
      map fst (filter ((\<lambda>i. P i (xs ! i)) \<circ> fst) ?zs)"
    by (rule filter_map)
  moreover have "map fst ?zs = [0..<length xs]"
    by simp
  ultimately show ?thesis
    by (simp only: enumerate_eq_zip comp_def add_0)
qed

lemma process_sentence_index:
  "process_sentence lower kiwi rs idx s = Inr p \<Longrightarrow> index p = idx \<and> sentence p = s"
  by (auto simp: process_sentence_eq split: sum.splits list.splits)

lemma process_sentence_lengths:
  "process_sentence lower kiwi rs idx s = Inr p \<Longrightarrow>
     length (tokens p) = tokenCount p \<and> length (normalized p) = tokenCount p \<and>
     length (posTags p) = tokenCount p"
  by (auto simp: process_sentence_eq split: sum.splits list.splits)

lemma sentence_loop_eq:
  "sentence_loop lower kiwi rs es acc =
     acc @ concat (map (\<lambda>e. case process_sentence lower kiwi rs (fst e) (snd e) of
                              Inl err \<Rightarrow> [] | Inr p \<Rightarrow> [p]) es)"
  by (induction es arbitrary: acc) (auto split: sum.splits)

lemma sentence_loop_index:
  "map index (concat (map (\<lambda>e. case process_sentence lower kiwi rs (fst e) (snd e) of
                              Inl err \<Rightarrow> [] | Inr p \<Rightarrow> [p]) es)) =
   map fst (filter (\<lambda>e. \<not> isl (process_sentence lower kiwi rs (fst e) (snd e))) es)"
  by (induction es) (auto split: sum.splits dest: process_sentence_index)

lemma sentence_loop_member:
  "p \<in> set (concat (map (\<lambda>e. case process_sentence lower kiwi rs (fst e) (snd e) of
                              Inl err \<Rightarrow> [] | Inr p \<Rightarrow> [p]) es)) \<longleftrightarrow>
   (\<exists>e \<in> set es. process_sentence lower kiwi rs (fst e) (snd e) = Inr p)"
  by (induction es) (auto split: sum.splits)

lemma key_terms_of_sentence_eq:
  assumes "\<forall>e \<in> set es. fst e < length (normalized s)"
  shows "key_terms_of_sentence s es acc =
     Inr (acc \<union> {normalized s ! fst e |e. e \<in> set es \<and> is_key_tag (snd e)})"
  using assms
proof (induction es arbitrary: acc)
  case Nil
  show ?case by simp
next
  case (Cons e es)
  obtain i t where e: "e = (i, t)" by (cases e)
  from Cons.prems e have b: "i < length (normalized s)" by simp
  from Cons.prems have r: "\<forall>e \<in> set es. fst e < length (normalized s)" by simp
  show ?case
    using b Cons.IH [OF r] by (auto simp: e getitem_def)
qed

lemma key_pairs_enumerate:
  assumes "length (posTags s) = length (normalized s)"
  shows "{normalized s ! fst e |e. e \<in> set (List.enumerate 0 (posTags s)) \<and> is_key_tag (snd e)} =
         {n. \<exists>g. (n, g) \<in> set (zip (normalized s) (posTags s)) \<and> is_key_tag g}"
  using assms by (auto simp: in_set_enumerate_eq in_set_zip)

lemma key_terms_loop_eq:
  assumes "\<forall>s \<in> set ss. length (posTags s) = length (normalized s)"
  shows "key_terms_loop ss acc =
     Inr (acc \<union> {n. \<exists>s \<in> set ss. \<exists>g. (n, g) \<in> set (zip (normalized s) (posTags s)) \<and> is_key_tag g})"
  using assms
proof (induction ss arbitrary: acc)
  case Nil
  show ?case by simp
next
  case (Cons s ss)
  from Cons.prems have l: "length (posTags s) = length (normalized s)" by simp
  from Cons.prems have r: "\<forall>s \<in> set ss. length (posTags s) = length (normalized s)" by simp
  have "\<forall>e \<in> set (List.enumerate 0 (posTags s)). fst e < length (normalized s)"
    using l by (simp add: in_set_enumerate_eq)
  from key_terms_of_sentence_eq [OF this]
  have "key_terms_of_sentence s (List.enumerate 0 (posTags s)) acc =
     Inr (acc \<union> {n. \<exists>g. (n, g) \<in> set (zip (normalized s) (posTags s)) \<and> is_key_tag g})"
    by (simp only: key_pairs_enumerate [OF l])
  then show ?case
    using Cons.IH [OF r] by auto
qed

lemma is_key_tag_prefix:
  "is_key_tag t \<longleftrightarrow> startswith t (ascii ''N'') \<or> startswith t (ascii ''V'')"
  by (auto simp: is_key_tag_def startswith_def ascii_def)

lemma compute_stats_eq:
  "compute_stats fdiv ss kt =
     Inr \<lparr>totalTokens = sum_list (map tokenCount ss),
          avgTokensPerSentence =
            (if ss = [] then PyInt 0
             else PyFloat (fdiv (sum_list (map tokenCount ss)) (length ss))),
          keyTermCount = card kt\<rparr>"
  by (simp add: compute_stats_def truediv_def)

section \<open>Properties of the handler\<close>

lemma validate_input_obj:
  assumes "validate_input data = Inr text"
  shows "\<exists>kvs. data = JObj kvs"
  using assms by (cases data) (simp_all add: validate_input_def split: if_splits)

lemma sentence_loop_lengths:
  assumes "p \<in> set (sentence_loop lower kiwi rs es [])"
  shows "length (posTags p) = length (normalized p)"
proof -
  from assms obtain e where "process_sentence lower kiwi rs (fst e) (snd e) = Inr p"
    by (auto simp: sentence_loop_eq sentence_loop_member)
  from process_sentence_lengths [OF this] show ?thesis by simp
qed

lemma try_block_eq:
  assumes "validate_input data = Inr text"
    and "json_get data key_removeStopwords (JBool True) = Inr rs"
    and "split_into_sents kiwi text = Inr sents"
  shows "try_block lower fdiv kiwi rid data =
     Inr \<lparr>requestId = rid,
          sentences = map text_of sents,
          processedSentences =
            sentence_loop lower kiwi rs (List.enumerate 0 (map text_of sents)) [],
          keyTerms =
            {n. \<exists>s \<in> set (sentence_loop lower kiwi rs (List.enumerate 0 (map text_of sents)) []).
                 \<exists>g. (n, g) \<in> set (zip (normalized s) (posTags s)) \<and> is_key_tag g},
          sentenceCount = length sents,
          stats =
            \<lparr>totalTokens = sum_list (map tokenCount
               (sentence_loop lower kiwi rs (List.enumerate 0 (map text_of sents)) [])),
             avgTokensPerSentence =
               (if sentence_loop lower kiwi rs (List.enumerate 0 (map text_of sents)) [] = []
                then PyInt 0
                else PyFloat (fdiv (sum_list (map tokenCount
                  (sentence_loop lower kiwi rs (List.enumerate 0 (map text_of sents)) [])))
                  (length (sentence_loop lower kiwi rs (List.enumerate 0 (map text_of sents)) [])))),
             keyTermCount = card
               {n. \<exists>s \<in> set (sentence_loop lower kiwi rs (List.enumerate 0 (map text_of sents)) []).
                 \<exists>g. (n, g) \<in> set (zip (normalized s) (posTags s)) \<and> is_key_tag g}\<rparr>\<rparr>"
proof -
  let ?ps = "sentence_loop lower kiwi rs (List.enumerate 0 (map text_of sents)) []"
  have "\<forall>s \<in> set ?ps. length (posTags s) = length (normalized s)"
    using sentence_loop_lengths by blast
  from key_terms_loop_eq [OF this, of "{}"]
  have kt: "key_terms_loop ?ps {} =
     Inr {n. \<exists>s \<in> set ?ps. \<exists>g. (n, g) \<in> set (zip (normalized s) (posTags s)) \<and> is_key_tag g}"
    by simp
  show ?thesis
    unfolding try_block_def using assms kt
    by (simp add: compute_stats_eq Let_def)
qed

lemma try_block_Inr:
  assumes "try_block lower fdiv kiwi rid data = Inr r"
  shows "\<exists>text rs sents. validate_input data = Inr text \<and>
           json_get data key_removeStopwords (JBool True) = Inr rs \<and>
           split_into_sents kiwi text = Inr sents"
  using assms unfolding try_block_def by (auto split: sum.splits)

lemma try_block_request_id:
  "try_block lower fdiv kiwi rid' data =
     (case try_block lower fdiv kiwi rid data of
        Inl e \<Rightarrow> Inl e
      | Inr r \<Rightarrow> Inr (r\<lparr>requestId := rid'\<rparr>))"
  unfolding try_block_def by (simp add: Let_def split: sum.splits)

lemmas example_defs = preprocess_for_textrank_def try_block_def validate_input_def
  request_of_def request_unfiltered_def key_text_def key_removeStopwords_def ascii_def
  strip_def isspace_def example_kiwi_def process_sentence_def getitem_def
  enumerate_eq_zip compute_stats_def truediv_def exact_quotient_def ascii_lower_def
  is_key_tag_def startswith_def KOREAN_STOPWORDS_def example_id_def

lemmas example_congs = sum.case_cong_weak list.case_cong_weak prod.case_cong_weak

lemma try_block_fields:
  assumes "validate_input data = Inr text"
    and "json_get data key_removeStopwords (JBool True) = Inr rs"
    and "split_into_sents kiwi text = Inr sents"
  shows "\<exists>r. try_block lower fdiv kiwi rid data = Inr r \<and>
           requestId r = rid \<and>
           sentences r = map text_of sents \<and>
           processedSentences r =
             sentence_loop lower kiwi rs (List.enumerate 0 (map text_of sents)) [] \<and>
           keyTerms r =
             {n. \<exists>s \<in> set (processedSentences r).
                  \<exists>g. (n, g) \<in> set (zip (normalized s) (posTags s)) \<and> is_key_tag g} \<and>
           sentenceCount r = length sents \<and>
           totalTokens (stats r) = sum_list (map tokenCount (processedSentences r)) \<and>
           avgTokensPerSentence (stats r) =
             (if processedSentences r = [] then PyInt 0
              else PyFloat (fdiv (sum_list (map tokenCount (processedSentences r)))
                                 (length (processedSentences r)))) \<and>
           keyTermCount (stats r) = card (keyTerms r)"
  unfolding try_block_eq [OF assms] by simp

lemma preprocess_success:
  "try_block lower fdiv kiwi rid data = Inr r \<Longrightarrow>
     preprocess_for_textrank lower fdiv kiwi rid data = (Result r, 200)"
  by (simp add: preprocess_for_textrank_def)

lemma preprocess_Result:
  assumes "preprocess_for_textrank lower fdiv kiwi rid data = (Result r, st)"
  shows "try_block lower fdiv kiwi rid data = Inr r \<and> st = 200"
  using assms by (auto simp: preprocess_for_textrank_def split: sum.splits exn.splits)

lemma success_cases:
  assumes "preprocess_for_textrank lower fdiv kiwi rid data = (Result r, st)"
  shows "\<exists>text rs sents.
           validate_input data = Inr text \<and>
           json_get data key_removeStopwords (JBool True) = Inr rs \<and>
           split_into_sents kiwi text = Inr sents \<and>
           st = 200 \<and>
           requestId r = rid \<and>
           sentences r = map text_of sents \<and>
           processedSentences r =
             sentence_loop lower kiwi rs (List.enumerate 0 (map text_of sents)) [] \<and>
           keyTerms r =
             {n. \<exists>s \<in> set (processedSentences r).
                  \<exists>g. (n, g) \<in> set (zip (normalized s) (posTags s)) \<and> is_key_tag g} \<and>
           sentenceCount r = length sents \<and>
           totalTokens (stats r) = sum_list (map tokenCount (processedSentences r)) \<and>
           avgTokensPerSentence (stats r) =
             (if processedSentences r = [] then PyInt 0
              else PyFloat (fdiv (sum_list (map tokenCount (processedSentences r)))
                                 (length (processedSentences r)))) \<and>
           keyTermCount (stats r) = card (keyTerms r)"
proof -
  from preprocess_Result [OF assms]
  have tb: "try_block lower fdiv kiwi rid data = Inr r" and st: "st = 200" by simp_all
  from try_block_Inr [OF tb] obtain tx rs sents
    where v: "validate_input data = Inr tx"
      and g: "json_get data key_removeStopwords (JBool True) = Inr rs"
      and s: "split_into_sents kiwi tx = Inr sents"
    by blast
  from try_block_fields [OF v g s, of lower fdiv rid] tb
  show ?thesis
    using v g s st by (intro exI [of _ tx] exI [of _ rs] exI [of _ sents]) simp
qed

lemma record_origin:
  assumes "p \<in> set (sentence_loop lower kiwi rs (List.enumerate 0 xs) [])"
  shows "index p < length xs \<and> sentence p = xs ! index p \<and>
         process_sentence lower kiwi rs (index p) (sentence p) = Inr p"
proof -
  from assms obtain e where e: "e \<in> set (List.enumerate 0 xs)"
    and pr: "process_sentence lower kiwi rs (fst e) (snd e) = Inr p"
    by (auto simp: sentence_loop_eq sentence_loop_member)
  from process_sentence_index [OF pr] have "index p = fst e" "sentence p = snd e" by simp_all
  with e pr show ?thesis by (simp add: in_set_enumerate_eq)
qed

lemma example_run_A:
  "\<exists>r. preprocess_for_textrank ascii_lower exact_quotient example_kiwi example_id
          (request_of ''A'') = (Result r, 200) \<and>
        processedSentences r =
          [\<lparr>index = 0, sentence = ascii ''A'',
            tokens = [ascii ''A'', ascii ''Very'', ascii ''Go''],
            normalized = [ascii ''a'', ascii ''very'', ascii ''go''],
            posTags = [ascii ''NNG'', ascii ''MAG'', ascii ''VV''],
            tokenCount = 3\<rparr>]"
  by (simp add: example_defs cong: example_congs)

lemma example_run_A_unfiltered:
  "\<exists>r. preprocess_for_textrank ascii_lower exact_quotient example_kiwi example_id
          (request_unfiltered ''A'') = (Result r, 200) \<and>
        processedSentences r =
          [\<lparr>index = 0, sentence = ascii ''A'',
            tokens = [ascii ''A'', [51060], ascii ''Very'', ascii ''Go''],
            normalized = [ascii ''a'', [51060], ascii ''very'', ascii ''go''],
            posTags = [ascii ''NNG'', ascii ''JKS'', ascii ''MAG'', ascii ''VV''],
            tokenCount = 4\<rparr>]"
  by (simp add: example_defs cong: example_congs)

lemma record_analysis:
  assumes "process_sentence lower kiwi rs idx s = Inr p"
  shows "\<exists>best others. analyze kiwi s = Inr (best # others) \<and>
           tokens p = map form (kept lower rs (fst best)) \<and>
           normalized p = map (\<lambda>m. lower (form m)) (kept lower rs (fst best)) \<and>
           posTags p = map tag (kept lower rs (fst best))"
  using assms by (auto simp: process_sentence_eq split: sum.splits list.splits)

lemma record_of_result:
  assumes "preprocess_for_textrank lower fdiv kiwi rid data = (Result r, st)"
    and "json_get data key_removeStopwords (JBool True) = Inr rs"
    and "p \<in> set (processedSentences r)"
  shows "process_sentence lower kiwi rs (index p) (sentence p) = Inr p"
proof -
  from success_cases [OF assms(1)] assms(2) obtain sents
    where ps: "processedSentences r =
             sentence_loop lower kiwi rs (List.enumerate 0 (map text_of sents)) []"
    by auto
  from assms(3) have "p \<in> set (sentence_loop lower kiwi rs (List.enumerate 0 (map text_of sents)) [])"
    by (simp only: ps)
  from record_origin [OF this] show ?thesis by blast
qed

lemma example_run_failures:
  "\<exists>r. preprocess_for_textrank ascii_lower exact_quotient example_kiwi example_id
          (request_of ''x e'') = (Result r, 200) \<and>
        sentences r = [ascii ''x'', ascii ''e''] \<and>
        processedSentences r = []"
  by (simp add: example_defs cong: example_congs)

lemma preprocess_validation_error:
  assumes "validate_input data = Inl (TextRankPreprocessingError m)"
  shows "preprocess_for_textrank lower fdiv kiwi rid data =
           (Error (prefix_validation @ m) rid, 400)"
  using assms by (simp add: preprocess_for_textrank_def try_block_def)

lemma length_filter_less_iff:
  "length (filter P xs) < length xs \<longleftrightarrow> (\<exists>x \<in> set xs. \<not> P x)"
proof
  assume "length (filter P xs) < length xs"
  then have "filter P xs \<noteq> xs" by auto
  then show "\<exists>x \<in> set xs. \<not> P x" by (auto simp: filter_id_conv)
next
  assume "\<exists>x \<in> set xs. \<not> P x"
  then show "length (filter P xs) < length xs" by (auto intro: length_filter_less)
qed

section \<open>The claims\<close>

text \<open>
  C1 (per-sentence fault isolation). For a request that passes validation and whose text
  the splitter has cut into sentences, the handler answers with the result body and
  status 200, whatever happens while the single sentences are processed. The records of
  the result are, in order, those of the sentences whose processing did not raise; a
  sentence whose processing raised contributes nothing, and the \<open>index\<close> fields of the
  records are exactly the positions of the sentences that were processed.
\<close>

theorem per_sentence_fault_isolation:
  assumes "validate_input data = Inr text"
    and "split_into_sents kiwi text = Inr sents"
  shows "\<exists>rs r. json_get data key_removeStopwords (JBool True) = Inr rs \<and>
           preprocess_for_textrank lower fdiv kiwi rid data = (Result r, 200) \<and>
           processedSentences r =
             concat (map (\<lambda>(i, s). case process_sentence lower kiwi rs i s of
                                      Inl e \<Rightarrow> [] | Inr p \<Rightarrow> [p])
                         (List.enumerate 0 (map text_of sents))) \<and>
           map index (processedSentences r) =
             filter (\<lambda>i. \<not> isl (process_sentence lower kiwi rs i (map text_of sents ! i)))
                    [0..<length sents]"
proof -
  from validate_input_obj [OF assms(1)] obtain kvs where d: "data = JObj kvs" ..
  define rs where "rs = (case map_of kvs key_removeStopwords of None \<Rightarrow> JBool True | Some v \<Rightarrow> v)"
  have g: "json_get data key_removeStopwords (JBool True) = Inr rs"
    by (simp add: d rs_def)
  let ?es = "List.enumerate 0 (map text_of sents)"
  let ?f = "\<lambda>e. case process_sentence lower kiwi rs (fst e) (snd e) of
                  Inl err \<Rightarrow> [] | Inr p \<Rightarrow> [p]"
  from try_block_fields [OF assms(1) g assms(2), of lower fdiv rid]
  obtain r where tb: "try_block lower fdiv kiwi rid data = Inr r"
    and p: "processedSentences r = sentence_loop lower kiwi rs ?es []"
    by (elim exE conjE)
  have f: "(\<lambda>(i, s). case process_sentence lower kiwi rs i s of Inl e \<Rightarrow> [] | Inr p \<Rightarrow> [p]) = ?f"
    by (simp add: fun_eq_iff)
  have ps: "processedSentences r = concat (map ?f ?es)"
    by (simp add: p sentence_loop_eq)
  have "map index (concat (map ?f ?es)) =
      filter (\<lambda>i. \<not> isl (process_sentence lower kiwi rs i (map text_of sents ! i)))
             [0..<length sents]"
    using enumerate_filter_fst
      [of "\<lambda>i s. \<not> isl (process_sentence lower kiwi rs i s)" "map text_of sents"]
    by (simp only: sentence_loop_index length_map)
  then have ix: "map index (processedSentences r) =
      filter (\<lambda>i. \<not> isl (process_sentence lower kiwi rs i (map text_of sents ! i)))
             [0..<length sents]"
    by (simp only: ps)
  from g preprocess_success [OF tb] ps [folded f] ix
  show ?thesis by blast
qed

theorem per_sentence_fault_isolation_witness:
  "\<exists>text sents rs r.
     validate_input (request_of ''Ab xCd'') = Inr text \<and>
     split_into_sents example_kiwi text = Inr sents \<and>
     length sents = 5 \<and>
     json_get (request_of ''Ab xCd'') key_removeStopwords (JBool True) = Inr rs \<and>
     isl (process_sentence ascii_lower example_kiwi rs 2 (map text_of sents ! 2)) \<and>
     preprocess_for_textrank ascii_lower exact_quotient example_kiwi example_id
       (request_of ''Ab xCd'') = (Result r, 200) \<and>
     map index (processedSentences r) = [0, 1, 3, 4]"
proof -
  let ?sents = "[Sentence [65], Sentence [98], Sentence [120], Sentence [67], Sentence [100]]"
  have v: "validate_input (request_of ''Ab xCd'') = Inr (ascii ''Ab xCd'')"
    by (simp add: example_defs cong: example_congs)
  have s: "split_into_sents example_kiwi (ascii ''Ab xCd'') = Inr ?sents"
    by (simp add: example_defs cong: example_congs)
  from per_sentence_fault_isolation [OF v s, of ascii_lower exact_quotient example_id]
  obtain rs r where g: "json_get (request_of ''Ab xCd'') key_removeStopwords (JBool True) = Inr rs"
    and run: "preprocess_for_textrank ascii_lower exact_quotient example_kiwi example_id
       (request_of ''Ab xCd'') = (Result r, 200)"
    and ix: "map index (processedSentences r) =
       filter (\<lambda>i. \<not> isl (process_sentence ascii_lower example_kiwi rs i (map text_of ?sents ! i)))
              [0..<length ?sents]"
    by (elim exE conjE)
  from g have rs: "rs = JBool True"
    by (simp add: example_defs)
  have up: "[0..<length ?sents] = [0, 1, 2, 3, 4]"
    by (simp add: upt_rec)
  have f: "isl (process_sentence ascii_lower example_kiwi rs 2 (map text_of ?sents ! 2))"
    by (simp add: rs example_defs cong: example_congs)
  have l: "length ?sents = 5"
    by simp
  have ix': "map index (processedSentences r) = [0, 1, 3, 4]"
    unfolding ix up rs by (simp add: example_defs cong: example_congs)
  show ?thesis
    by (intro exI conjI) (rule v, rule s, rule l, rule g, rule f, rule run, rule ix')
qed

text \<open>
  C2 (parallel sequences). In every record of a result body the three lists
  \<open>tokens\<close>, \<open>normalized\<close> and \<open>posTags\<close> have the same length, and \<open>tokenCount\<close> is that
  length. Nothing is assumed about the stopword option.
\<close>

theorem parallel_sequences:
  assumes "preprocess_for_textrank lower fdiv kiwi rid data = (Result r, st)"
    and "p \<in> set (processedSentences r)"
  shows "length (tokens p) = length (normalized p) \<and>
         length (normalized p) = length (posTags p) \<and>
         length (posTags p) = tokenCount p"
proof -
  from success_cases [OF assms(1)] obtain rs sents
    where ps: "processedSentences r =
             sentence_loop lower kiwi rs (List.enumerate 0 (map text_of sents)) []"
    by blast
  from assms(2) have "p \<in> set (sentence_loop lower kiwi rs (List.enumerate 0 (map text_of sents)) [])"
    by (simp only: ps)
  from record_origin [OF this]
  have "process_sentence lower kiwi rs (index p) (sentence p) = Inr p" by blast
  from process_sentence_lengths [OF this] show ?thesis by simp
qed

theorem parallel_sequences_witness:
  "\<exists>r p. preprocess_for_textrank ascii_lower exact_quotient example_kiwi example_id
            (request_of ''A'') = (Result r, 200) \<and>
          p \<in> set (processedSentences r) \<and>
          length (tokens p) = length (normalized p) \<and>
          length (normalized p) = length (posTags p) \<and>
          length (posTags p) = tokenCount p \<and>
          tokenCount p = 3"
proof -
  from example_run_A obtain r p
    where run: "preprocess_for_textrank ascii_lower exact_quotient example_kiwi example_id
            (request_of ''A'') = (Result r, 200)"
      and l: "processedSentences r = [p]"
      and c: "tokenCount p = 3"
    by auto
  from l have m: "p \<in> set (processedSentences r)"
    by simp
  from parallel_sequences [OF run m] run m c show ?thesis by blast
qed

text \<open>
  C3 (stopword filtering). When the stopword option is true (which it is when the request
  does not give it), every record of the result comes from the best candidate of the
  analysis of its sentence by one filter on the morphemes: a morpheme is kept exactly when
  the lower-cased form, its entry of the unfiltered \<open>normalized\<close> list, is not in
  \<open>KOREAN_STOPWORDS\<close>. The three lists are the projections of the kept morphemes, in
  order, and no element of \<open>normalized\<close> is a stopword.
\<close>

theorem stopword_filtering:
  assumes "preprocess_for_textrank lower fdiv kiwi rid data = (Result r, st)"
    and "json_get data key_removeStopwords (JBool True) = Inr rs"
    and "truthy rs"
    and "p \<in> set (processedSentences r)"
  shows "\<exists>best others.
           analyze kiwi (sentence p) = Inr (best # others) \<and>
           tokens p =
             map form (filter (\<lambda>m. lower (form m) \<notin> KOREAN_STOPWORDS) (fst best)) \<and>
           normalized p =
             map (\<lambda>m. lower (form m))
               (filter (\<lambda>m. lower (form m) \<notin> KOREAN_STOPWORDS) (fst best)) \<and>
           posTags p =
             map tag (filter (\<lambda>m. lower (form m) \<notin> KOREAN_STOPWORDS) (fst best)) \<and>
           set (normalized p) \<inter> KOREAN_STOPWORDS = {}"
proof -
  from record_of_result [OF assms(1,2,4)]
  have "process_sentence lower kiwi rs (index p) (sentence p) = Inr p" .
  from record_analysis [OF this] obtain best others
    where a: "analyze kiwi (sentence p) = Inr (best # others)"
      and t: "tokens p = map form (kept lower rs (fst best))"
      and n: "normalized p = map (\<lambda>m. lower (form m)) (kept lower rs (fst best))"
      and g: "posTags p = map tag (kept lower rs (fst best))"
    by blast
  have k: "kept lower rs (fst best) =
           filter (\<lambda>m. lower (form m) \<notin> KOREAN_STOPWORDS) (fst best)"
    using assms(3) by (simp add: kept_def)
  have "set (normalized p) \<inter> KOREAN_STOPWORDS = {}"
    unfolding n k by auto
  with a t n g k show ?thesis by (intro exI [of _ best] exI [of _ others]) simp
qed

theorem stopword_filtering_witness:
  "\<exists>r rs p best others.
     preprocess_for_textrank ascii_lower exact_quotient example_kiwi example_id
       (request_of ''A'') = (Result r, 200) \<and>
     json_get (request_of ''A'') key_removeStopwords (JBool True) = Inr rs \<and>
     truthy rs \<and>
     p \<in> set (processedSentences r) \<and>
     analyze example_kiwi (sentence p) = Inr (best # others) \<and>
     tokens p =
       map form (filter (\<lambda>m. ascii_lower (form m) \<notin> KOREAN_STOPWORDS) (fst best)) \<and>
     normalized p =
       map (\<lambda>m. ascii_lower (form m))
         (filter (\<lambda>m. ascii_lower (form m) \<notin> KOREAN_STOPWORDS) (fst best)) \<and>
     posTags p =
       map tag (filter (\<lambda>m. ascii_lower (form m) \<notin> KOREAN_STOPWORDS) (fst best)) \<and>
     set (normalized p) \<inter> KOREAN_STOPWORDS = {} \<and>
     length (fst best) = 4 \<and>
     length (tokens p) = 3"
proof -
  from example_run_A obtain r p
    where run: "preprocess_for_textrank ascii_lower exact_quotient example_kiwi example_id
            (request_of ''A'') = (Result r, 200)"
      and l: "processedSentences r = [p]"
      and sp: "sentence p = ascii ''A''"
      and tp: "length (tokens p) = 3"
    by auto
  from l have m: "p \<in> set (processedSentences r)"
    by simp
  have g: "json_get (request_of ''A'') key_removeStopwords (JBool True) = Inr (JBool True)"
    by (simp add: example_defs)
  have t: "truthy (JBool True)"
    by simp
  from stopword_filtering [OF run g t m] obtain best others
    where a: "analyze example_kiwi (sentence p) = Inr (best # others)"
      and tk: "tokens p =
             map form (filter (\<lambda>m. ascii_lower (form m) \<notin> KOREAN_STOPWORDS) (fst best))"
      and nm: "normalized p =
             map (\<lambda>m. ascii_lower (form m))
               (filter (\<lambda>m. ascii_lower (form m) \<notin> KOREAN_STOPWORDS) (fst best))"
      and pt: "posTags p =
             map tag (filter (\<lambda>m. ascii_lower (form m) \<notin> KOREAN_STOPWORDS) (fst best))"
      and ns: "set (normalized p) \<inter> KOREAN_STOPWORDS = {}"
    by blast
  from a have lb: "length (fst best) = 4"
    by (auto simp: sp example_kiwi_def ascii_def)
  show ?thesis
    by (intro exI conjI)
      (rule run, rule g, rule t, rule m, rule a, rule tk, rule nm, rule pt, rule ns,
       rule lb, rule tp)
qed

text \<open>
  C4 (unfiltered construction). When the stopword option is false, every record of the
  result holds the best candidate of the analysis of its sentence in full: \<open>tokens\<close> are
  the forms, \<open>normalized\<close> the lower-cased forms and \<open>posTags\<close> the tags of all its
  morphemes, in order. The other candidates have no influence. The case folding of the
  source is \<^verbatim>\<open>str.lower\<close>.
\<close>

theorem unfiltered_construction:
  assumes "preprocess_for_textrank lower fdiv kiwi rid data = (Result r, st)"
    and "json_get data key_removeStopwords (JBool True) = Inr rs"
    and "\<not> truthy rs"
    and "p \<in> set (processedSentences r)"
  shows "\<exists>best others.
           analyze kiwi (sentence p) = Inr (best # others) \<and>
           tokens p = map form (fst best) \<and>
           normalized p = map (\<lambda>m. lower (form m)) (fst best) \<and>
           posTags p = map tag (fst best) \<and>
           tokenCount p = length (fst best)"
proof -
  from record_of_result [OF assms(1,2,4)]
  have pr: "process_sentence lower kiwi rs (index p) (sentence p) = Inr p" .
  from record_analysis [OF pr] obtain best others
    where a: "analyze kiwi (sentence p) = Inr (best # others)"
      and t: "tokens p = map form (kept lower rs (fst best))"
      and n: "normalized p = map (\<lambda>m. lower (form m)) (kept lower rs (fst best))"
      and g: "posTags p = map tag (kept lower rs (fst best))"
    by blast
  have k: "kept lower rs (fst best) = fst best"
    using assms(3) by (simp add: kept_def)
  from process_sentence_lengths [OF pr] have "tokenCount p = length (tokens p)"
    by simp
  with a t n g k show ?thesis by (intro exI [of _ best] exI [of _ others]) simp
qed

theorem unfiltered_construction_witness:
  "\<exists>r rs p best others.
     preprocess_for_textrank ascii_lower exact_quotient example_kiwi example_id
       (request_unfiltered ''A'') = (Result r, 200) \<and>
     json_get (request_unfiltered ''A'') key_removeStopwords (JBool True) = Inr rs \<and>
     \<not> truthy rs \<and>
     p \<in> set (processedSentences r) \<and>
     analyze example_kiwi (sentence p) = Inr (best # others) \<and>
     others \<noteq> [] \<and>
     tokens p = map form (fst best) \<and>
     normalized p = map (\<lambda>m. ascii_lower (form m)) (fst best) \<and>
     posTags p = map tag (fst best) \<and>
     tokenCount p = length (fst best) \<and>
     tokens p = [ascii ''A'', [51060], ascii ''Very'', ascii ''Go'']"
proof -
  from example_run_A_unfiltered obtain r p
    where run: "preprocess_for_textrank ascii_lower exact_quotient example_kiwi example_id
            (request_unfiltered ''A'') = (Result r, 200)"
      and l: "processedSentences r = [p]"
      and sp: "sentence p = ascii ''A''"
      and tp: "tokens p = [ascii ''A'', [51060], ascii ''Very'', ascii ''Go'']"
    by auto
  from l have m: "p \<in> set (processedSentences r)"
    by simp
  have g: "json_get (request_unfiltered ''A'') key_removeStopwords (JBool True) =
           Inr (JBool False)"
    by (simp add: example_defs)
  have t: "\<not> truthy (JBool False)"
    by simp
  from unfiltered_construction [OF run g t m] obtain best others
    where a: "analyze example_kiwi (sentence p) = Inr (best # others)"
      and tk: "tokens p = map form (fst best)"
      and nm: "normalized p = map (\<lambda>m. ascii_lower (form m)) (fst best)"
      and pt: "posTags p = map tag (fst best)"
      and tc: "tokenCount p = length (fst best)"
    by blast
  from a have ot: "others \<noteq> []"
    by (auto simp: sp example_kiwi_def ascii_def)
  show ?thesis
    by (intro exI conjI)
      (rule run, rule g, rule t, rule m, rule a, rule ot, rule tk, rule nm, rule pt,
       rule tc, rule tp)
qed

text \<open>
  C5 (key terms). A string is a key term of a result exactly when some record of the
  result pairs it, at one position of \<open>normalized\<close> and \<open>posTags\<close>, with a tag that starts
  with \<^verbatim>\<open>N\<close> or with \<^verbatim>\<open>V\<close>. The comparison of the tag with \<^verbatim>\<open>VA\<close> adds nothing to these
  two tests. The key terms are a set, so a term found twice is there once.
\<close>

theorem key_term_membership:
  assumes "preprocess_for_textrank lower fdiv kiwi rid data = (Result r, st)"
  shows "(t \<in> keyTerms r \<longleftrightarrow>
            (\<exists>p \<in> set (processedSentences r).
               \<exists>g. (t, g) \<in> set (zip (normalized p) (posTags p)) \<and>
                   (startswith g (ascii ''N'') \<or> startswith g (ascii ''V'')))) \<and>
         (is_key_tag g' \<longleftrightarrow> startswith g' (ascii ''N'') \<or> startswith g' (ascii ''V''))"
proof -
  from success_cases [OF assms]
  have "keyTerms r =
          {n. \<exists>s \<in> set (processedSentences r).
               \<exists>g. (n, g) \<in> set (zip (normalized s) (posTags s)) \<and> is_key_tag g}"
    by blast
  then have "t \<in> keyTerms r \<longleftrightarrow>
      (\<exists>p \<in> set (processedSentences r).
         \<exists>g. (t, g) \<in> set (zip (normalized p) (posTags p)) \<and> is_key_tag g)"
    by simp
  then show ?thesis
    by (simp only: is_key_tag_prefix simp_thms)
qed

theorem key_term_membership_witness:
  "\<exists>r. preprocess_for_textrank ascii_lower exact_quotient example_kiwi example_id
          (request_of ''A'') = (Result r, 200) \<and>
        ascii ''go'' \<in> keyTerms r \<and>
        ascii ''very'' \<notin> keyTerms r \<and>
        is_key_tag (ascii ''VA'')"
proof -
  from example_run_A obtain r p
    where run: "preprocess_for_textrank ascii_lower exact_quotient example_kiwi example_id
            (request_of ''A'') = (Result r, 200)"
      and l: "processedSentences r = [p]"
      and n: "normalized p = [ascii ''a'', ascii ''very'', ascii ''go'']"
      and g: "posTags p = [ascii ''NNG'', ascii ''MAG'', ascii ''VV'']"
    by auto
  have a: "ascii ''go'' \<in> keyTerms r"
    unfolding key_term_membership [OF run, THEN conjunct1]
    by (simp add: l n g ascii_def startswith_def)
  have b: "ascii ''very'' \<notin> keyTerms r"
    unfolding key_term_membership [OF run, THEN conjunct1]
    by (simp add: l n g ascii_def startswith_def)
  have c: "is_key_tag (ascii ''VA'')"
    unfolding key_term_membership [OF run, THEN conjunct2]
    by (simp add: ascii_def startswith_def)
  from run a b c show ?thesis by blast
qed

text \<open>
  C6 (statistics). In every result, \<open>totalTokens\<close> is the sum of the \<open>tokenCount\<close> fields
  of the records; \<open>avgTokensPerSentence\<close> is the integer 0 when there is no record and
  otherwise the quotient of \<open>totalTokens\<close> by the number of records, as the runtime
  computes it; \<open>keyTermCount\<close> is the number of key terms. Computing the statistics never
  raises, on any list of records: the division is only reached with a divisor that is not
  zero.
\<close>

theorem stats_correct:
  assumes "preprocess_for_textrank lower fdiv kiwi rid data = (Result r, st)"
  shows "totalTokens (stats r) = sum_list (map tokenCount (processedSentences r)) \<and>
         avgTokensPerSentence (stats r) =
           (if processedSentences r = [] then PyInt 0
            else PyFloat (fdiv (totalTokens (stats r)) (length (processedSentences r)))) \<and>
         keyTermCount (stats r) = card (keyTerms r) \<and>
         (\<exists>s. compute_stats fdiv ss kt = Inr s)"
proof -
  from success_cases [OF assms]
  have t: "totalTokens (stats r) = sum_list (map tokenCount (processedSentences r))"
    and a: "avgTokensPerSentence (stats r) =
             (if processedSentences r = [] then PyInt 0
              else PyFloat (fdiv (sum_list (map tokenCount (processedSentences r)))
                                 (length (processedSentences r))))"
    and k: "keyTermCount (stats r) = card (keyTerms r)"
    by blast+
  have "\<exists>s. compute_stats fdiv ss kt = Inr s"
    by (simp add: compute_stats_eq)
  with t a k show ?thesis by simp
qed

theorem stats_correct_witness:
  "\<exists>r r'.
     preprocess_for_textrank ascii_lower exact_quotient example_kiwi example_id
       (request_of ''x e'') = (Result r, 200) \<and>
     sentenceCount r = 2 \<and>
     totalTokens (stats r) = 0 \<and>
     avgTokensPerSentence (stats r) = PyInt 0 \<and>
     preprocess_for_textrank ascii_lower exact_quotient example_kiwi example_id
       (request_of ''A'') = (Result r', 200) \<and>
     totalTokens (stats r') = 3 \<and>
     avgTokensPerSentence (stats r') = PyFloat (exact_quotient 3 1) \<and>
     keyTermCount (stats r') = card (keyTerms r')"
proof -
  from example_run_failures obtain r
    where run: "preprocess_for_textrank ascii_lower exact_quotient example_kiwi example_id
            (request_of ''x e'') = (Result r, 200)"
      and s: "sentences r = [ascii ''x'', ascii ''e'']"
      and l: "processedSentences r = []"
    by auto
  from example_run_A obtain r' p
    where run': "preprocess_for_textrank ascii_lower exact_quotient example_kiwi example_id
            (request_of ''A'') = (Result r', 200)"
      and l': "processedSentences r' = [p]"
      and c: "tokenCount p = 3"
    by auto
  from success_cases [OF run] s have n: "sentenceCount r = 2"
    by auto
  from stats_correct [OF run, of "[]" "{}"] l
  have t: "totalTokens (stats r) = 0" and a: "avgTokensPerSentence (stats r) = PyInt 0"
    by simp_all
  from stats_correct [OF run', of "[]" "{}"] l' c
  have t': "totalTokens (stats r') = 3"
    and a': "avgTokensPerSentence (stats r') = PyFloat (exact_quotient 3 1)"
    and k': "keyTermCount (stats r') = card (keyTerms r')"
    by simp_all
  show ?thesis
    by (intro exI conjI) (rule run, rule n, rule t, rule a, rule run', rule t', rule a', rule k')
qed

text \<open>
  C7 (validation: reasons and their precedence). A request payload is absent, or empty, or
  a key-value mapping, as the signature of \<^verbatim>\<open>validate_input\<close> says. Validation fails
  \<^item> with the message for an empty request when the payload is absent or empty (any value
    that tests false);
  \<^item> otherwise with the message for a missing text when the mapping has no key \<^verbatim>\<open>text\<close>
    or the value under it tests false (so an empty string is reported as missing);
  \<^item> otherwise with the message for a text that is not a string;
  \<^item> otherwise with the message for a blank text when the string is empty once stripped;
  \<^item> and otherwise succeeds with the string, unstripped.

  Whenever validation fails in one of these ways, the handler answers with status 400 and
  a body that carries the prefixed message and the request id. The answer does not depend
  on the Kiwi instance: neither the splitter nor the analyzer takes part in it.
\<close>

theorem validation_taxonomy:
  "(\<not> truthy data \<longrightarrow>
      validate_input data = Inl (TextRankPreprocessingError msg_request_empty)) \<and>
   (data = JObj kvs \<and> kvs \<noteq> [] \<and>
      (map_of kvs key_text = None \<or> (\<exists>v. map_of kvs key_text = Some v \<and> \<not> truthy v)) \<longrightarrow>
      validate_input data = Inl (TextRankPreprocessingError msg_text_missing)) \<and>
   (data = JObj kvs \<and> map_of kvs key_text = Some v \<and> truthy v \<and> (\<forall>s. v \<noteq> JStr s) \<longrightarrow>
      validate_input data = Inl (TextRankPreprocessingError msg_text_not_str)) \<and>
   (data = JObj kvs \<and> map_of kvs key_text = Some (JStr s) \<and> s \<noteq> [] \<and> strip s = [] \<longrightarrow>
      validate_input data = Inl (TextRankPreprocessingError msg_text_blank)) \<and>
   (data = JObj kvs \<and> map_of kvs key_text = Some (JStr s) \<and> strip s \<noteq> [] \<longrightarrow>
      validate_input data = Inr s) \<and>
   (validate_input data = Inl (TextRankPreprocessingError m) \<longrightarrow>
      preprocess_for_textrank lower fdiv kiwi rid data =
        (Error (prefix_validation @ m) rid, 400))"
proof (intro conjI impI)
  assume "\<not> truthy data"
  then show "validate_input data = Inl (TextRankPreprocessingError msg_request_empty)"
    by (simp add: validate_input_def)
next
  assume "data = JObj kvs \<and> kvs \<noteq> [] \<and>
      (map_of kvs key_text = None \<or> (\<exists>v. map_of kvs key_text = Some v \<and> \<not> truthy v))"
  then show "validate_input data = Inl (TextRankPreprocessingError msg_text_missing)"
    by (auto simp: validate_input_def)
next
  assume "data = JObj kvs \<and> map_of kvs key_text = Some v \<and> truthy v \<and> (\<forall>s. v \<noteq> JStr s)"
  then show "validate_input data = Inl (TextRankPreprocessingError msg_text_not_str)"
    by (cases v) (auto simp: validate_input_def)
next
  assume "data = JObj kvs \<and> map_of kvs key_text = Some (JStr s) \<and> s \<noteq> [] \<and> strip s = []"
  then show "validate_input data = Inl (TextRankPreprocessingError msg_text_blank)"
    by (auto simp: validate_input_def)
next
  assume "data = JObj kvs \<and> map_of kvs key_text = Some (JStr s) \<and> strip s \<noteq> []"
  then have "s \<noteq> []" by (auto simp: strip_def)
  with \<open>data = JObj kvs \<and> map_of kvs key_text = Some (JStr s) \<and> strip s \<noteq> []\<close>
  show "validate_input data = Inr s"
    by (auto simp: validate_input_def)
next
  assume "validate_input data = Inl (TextRankPreprocessingError m)"
  then show "preprocess_for_textrank lower fdiv kiwi rid data =
        (Error (prefix_validation @ m) rid, 400)"
    by (rule preprocess_validation_error)
qed

theorem validation_taxonomy_witness:
  "validate_input JNull = Inl (TextRankPreprocessingError msg_request_empty) \<and>
   validate_input (JObj []) = Inl (TextRankPreprocessingError msg_request_empty) \<and>
   validate_input (JObj [(ascii ''removeStopwords'', JBool False)]) =
     Inl (TextRankPreprocessingError msg_text_missing) \<and>
   validate_input (JObj [(ascii ''text'', JStr [])]) =
     Inl (TextRankPreprocessingError msg_text_missing) \<and>
   validate_input (JObj [(ascii ''text'', JInt 7)]) =
     Inl (TextRankPreprocessingError msg_text_not_str) \<and>
   validate_input (JObj [(ascii ''text'', JStr (ascii ''   ''))]) =
     Inl (TextRankPreprocessingError msg_text_blank) \<and>
   validate_input (JObj [(ascii ''text'', JStr (ascii '' A ''))]) = Inr (ascii '' A '') \<and>
   preprocess_for_textrank ascii_lower exact_quotient example_kiwi example_id
     (JObj [(ascii ''text'', JStr (ascii ''   ''))]) =
     (Error (prefix_validation @ msg_text_blank) example_id, 400)"
proof -
  note T = validation_taxonomy
  have 1: "validate_input JNull = Inl (TextRankPreprocessingError msg_request_empty)"
    using T [of JNull, THEN conjunct1] by simp
  have 2: "validate_input (JObj []) = Inl (TextRankPreprocessingError msg_request_empty)"
    using T [of "JObj []", THEN conjunct1] by simp
  have 3: "validate_input (JObj [(ascii ''removeStopwords'', JBool False)]) =
     Inl (TextRankPreprocessingError msg_text_missing)"
    using T [of "JObj [(ascii ''removeStopwords'', JBool False)]"
               "[(ascii ''removeStopwords'', JBool False)]",
             THEN conjunct2, THEN conjunct1]
    by (simp add: key_text_def ascii_def)
  have 4: "validate_input (JObj [(ascii ''text'', JStr [])]) =
     Inl (TextRankPreprocessingError msg_text_missing)"
    using T [of "JObj [(ascii ''text'', JStr [])]" "[(ascii ''text'', JStr [])]",
             THEN conjunct2, THEN conjunct1]
    by (simp add: key_text_def ascii_def)
  have 5: "validate_input (JObj [(ascii ''text'', JInt 7)]) =
     Inl (TextRankPreprocessingError msg_text_not_str)"
    using T [of "JObj [(ascii ''text'', JInt 7)]" "[(ascii ''text'', JInt 7)]" "JInt 7",
             THEN conjunct2, THEN conjunct2, THEN conjunct1]
    by (simp add: key_text_def ascii_def)
  have 6: "validate_input (JObj [(ascii ''text'', JStr (ascii ''   ''))]) =
     Inl (TextRankPreprocessingError msg_text_blank)"
    using T [of "JObj [(ascii ''text'', JStr (ascii ''   ''))]"
               "[(ascii ''text'', JStr (ascii ''   ''))]" _ "ascii ''   ''",
             THEN conjunct2, THEN conjunct2, THEN conjunct2, THEN conjunct1]
    by (simp add: key_text_def ascii_def strip_def isspace_def)
  have 7: "validate_input (JObj [(ascii ''text'', JStr (ascii '' A ''))]) = Inr (ascii '' A '')"
    using T [of "JObj [(ascii ''text'', JStr (ascii '' A ''))]"
               "[(ascii ''text'', JStr (ascii '' A ''))]" _ "ascii '' A ''",
             THEN conjunct2, THEN conjunct2, THEN conjunct2, THEN conjunct2, THEN conjunct1]
    by (simp add: key_text_def ascii_def strip_def isspace_def)
  have 8: "preprocess_for_textrank ascii_lower exact_quotient example_kiwi example_id
     (JObj [(ascii ''text'', JStr (ascii ''   ''))]) =
     (Error (prefix_validation @ msg_text_blank) example_id, 400)"
    using T [of "JObj [(ascii ''text'', JStr (ascii ''   ''))]" _ _ _ msg_text_blank
               ascii_lower exact_quotient example_kiwi example_id,
             THEN conjunct2, THEN conjunct2, THEN conjunct2, THEN conjunct2, THEN conjunct2]
      6
    by simp
  from 1 2 3 4 5 6 7 8 show ?thesis by (intro conjI)
qed

text \<open>
  C8 (counts). A result body exists only for a request that passed validation and whose
  text the splitter has cut into sentences. In it \<open>sentences\<close> are the texts of the
  splitter's sentences in their order, \<open>sentenceCount\<close> is the length of \<open>sentences\<close>, and
  there are at most \<open>sentenceCount\<close> records; there are fewer exactly when the processing
  of some sentence raised.
\<close>

theorem count_invariants:
  assumes "preprocess_for_textrank lower fdiv kiwi rid data = (Result r, st)"
  shows "\<exists>tx rs sents.
           validate_input data = Inr tx \<and>
           json_get data key_removeStopwords (JBool True) = Inr rs \<and>
           split_into_sents kiwi tx = Inr sents \<and>
           sentences r = map text_of sents \<and>
           sentenceCount r = length (sentences r) \<and>
           length (processedSentences r) \<le> sentenceCount r \<and>
           (length (processedSentences r) < sentenceCount r \<longleftrightarrow>
              (\<exists>i < length (sentences r).
                 isl (process_sentence lower kiwi rs i (sentences r ! i))))"
proof -
  from success_cases [OF assms] obtain tx rs sents
    where v: "validate_input data = Inr tx"
      and g: "json_get data key_removeStopwords (JBool True) = Inr rs"
      and s: "split_into_sents kiwi tx = Inr sents"
      and ss: "sentences r = map text_of sents"
      and ps: "processedSentences r =
             sentence_loop lower kiwi rs (List.enumerate 0 (map text_of sents)) []"
      and sc: "sentenceCount r = length sents"
    by blast
  let ?Q = "\<lambda>i. \<not> isl (process_sentence lower kiwi rs i (sentences r ! i))"
  have "map index (processedSentences r) = filter ?Q [0..<length (sentences r)]"
    unfolding ps ss sentence_loop_eq append_Nil sentence_loop_index
    using enumerate_filter_fst
      [of "\<lambda>i s. \<not> isl (process_sentence lower kiwi rs i s)" "map text_of sents"]
    by simp
  then have "length (map index (processedSentences r)) =
             length (filter ?Q [0..<length (sentences r)])"
    by (rule arg_cong)
  then have len: "length (processedSentences r) = length (filter ?Q [0..<length (sentences r)])"
    by simp
  have n: "sentenceCount r = length (sentences r)"
    by (simp add: sc ss)
  have le: "length (processedSentences r) \<le> sentenceCount r"
    unfolding len n using length_filter_le [of ?Q "[0..<length (sentences r)]"] by simp
  have "length (filter ?Q [0..<length (sentences r)]) < length [0..<length (sentences r)] \<longleftrightarrow>
        (\<exists>i \<in> set [0..<length (sentences r)]. \<not> ?Q i)"
    by (rule length_filter_less_iff)
  then have lt: "length (processedSentences r) < sentenceCount r \<longleftrightarrow>
        (\<exists>i < length (sentences r). isl (process_sentence lower kiwi rs i (sentences r ! i)))"
    unfolding len n by auto
  from v g s ss n le lt show ?thesis by blast
qed

theorem count_invariants_witness:
  "\<exists>r r'.
     preprocess_for_textrank ascii_lower exact_quotient example_kiwi example_id
       (request_of ''x e'') = (Result r, 200) \<and>
     sentences r = [ascii ''x'', ascii ''e''] \<and>
     sentenceCount r = 2 \<and>
     length (processedSentences r) = 0 \<and>
     preprocess_for_textrank ascii_lower exact_quotient example_kiwi example_id
       (request_of ''A'') = (Result r', 200) \<and>
     sentenceCount r' = length (sentences r') \<and>
     length (processedSentences r') = 1 \<and>
     length (processedSentences r') \<le> sentenceCount r'"
proof -
  from example_run_failures obtain r
    where run: "preprocess_for_textrank ascii_lower exact_quotient example_kiwi example_id
            (request_of ''x e'') = (Result r, 200)"
      and s: "sentences r = [ascii ''x'', ascii ''e'']"
      and l: "processedSentences r = []"
    by auto
  from example_run_A obtain r' p
    where run': "preprocess_for_textrank ascii_lower exact_quotient example_kiwi example_id
            (request_of ''A'') = (Result r', 200)"
      and l': "processedSentences r' = [p]"
    by auto
  from count_invariants [OF run] s have n: "sentenceCount r = 2"
    by auto
  from l have z: "length (processedSentences r) = 0"
    by simp
  from count_invariants [OF run']
  have n': "sentenceCount r' = length (sentences r')"
    and le': "length (processedSentences r') \<le> sentenceCount r'"
    by blast+
  from l' have o: "length (processedSentences r') = 1"
    by simp
  show ?thesis
    by (intro exI conjI) (rule run, rule s, rule n, rule z, rule run', rule n', rule o, rule le')
qed

text \<open>
  C9 (determinism up to the request id). The splitter and the analyzer being functions,
  a second run of the handler on the same payload, under another request id, answers with
  a result as well, and the two results have the same \<open>sentences\<close>, the same records,
  the same set of key terms, the same \<open>sentenceCount\<close> and the same \<open>stats\<close>; each carries
  the request id of its own run.
\<close>

theorem determinism_up_to_request_id:
  assumes "preprocess_for_textrank lower fdiv kiwi rid data = (Result r, st)"
  shows "\<exists>r'. preprocess_for_textrank lower fdiv kiwi rid' data = (Result r', st) \<and>
           sentences r' = sentences r \<and>
           processedSentences r' = processedSentences r \<and>
           keyTerms r' = keyTerms r \<and>
           sentenceCount r' = sentenceCount r \<and>
           stats r' = stats r \<and>
           requestId r = rid \<and> requestId r' = rid'"
proof -
  from preprocess_Result [OF assms]
  have tb: "try_block lower fdiv kiwi rid data = Inr r" and st: "st = 200" by simp_all
  from success_cases [OF assms] have i: "requestId r = rid" by blast
  have "try_block lower fdiv kiwi rid' data = Inr (r\<lparr>requestId := rid'\<rparr>)"
    using try_block_request_id [of lower fdiv kiwi rid' data rid] tb by simp
  from preprocess_success [OF this] st i show ?thesis
    by (intro exI [of _ "r\<lparr>requestId := rid'\<rparr>"]) simp
qed

theorem determinism_up_to_request_id_witness:
  "\<exists>r r'.
     preprocess_for_textrank ascii_lower exact_quotient example_kiwi example_id
       (request_of ''A'') = (Result r, 200) \<and>
     preprocess_for_textrank ascii_lower exact_quotient example_kiwi (ascii ''later'')
       (request_of ''A'') = (Result r', 200) \<and>
     sentences r' = sentences r \<and>
     processedSentences r' = processedSentences r \<and>
     keyTerms r' = keyTerms r \<and>
     stats r' = stats r \<and>
     requestId r = example_id \<and> requestId r' = ascii ''later'' \<and>
     requestId r' \<noteq> requestId r"
proof -
  from example_run_A obtain r
    where run: "preprocess_for_textrank ascii_lower exact_quotient example_kiwi example_id
            (request_of ''A'') = (Result r, 200)"
    by auto
  from determinism_up_to_request_id [OF run, of "ascii ''later''"] obtain r'
    where run': "preprocess_for_textrank ascii_lower exact_quotient example_kiwi (ascii ''later'')
       (request_of ''A'') = (Result r', 200)"
      and a: "sentences r' = sentences r"
      and b: "processedSentences r' = processedSentences r"
      and c: "keyTerms r' = keyTerms r"
      and d: "stats r' = stats r"
      and e: "requestId r = example_id"
      and f: "requestId r' = ascii ''later''"
    by blast
  have g: "requestId r' \<noteq> requestId r"
    unfolding e f by (simp add: example_id_def ascii_def)
  show ?thesis
    by (intro exI conjI) (rule run, rule run', rule a, rule b, rule c, rule d, rule e, rule f, rule g)
qed

text \<open>
  C10 (a payload that is not a mapping). When the payload tests true and is not a
  \<^verbatim>\<open>dict\<close> (a list with an element, a string with a character, a number that is not
  zero, \<^verbatim>\<open>true\<close>), \<^verbatim>\<open>validate_input\<close> does not raise its own error: the lookup of
  \<^verbatim>\<open>get\<close> raises \<open>AttributeError\<close>, which leaves the validator, and the handler answers
  with status 500 and a body that carries the request id and the message of the
  \<open>AttributeError\<close> behind the prefix of internal errors.
\<close>

theorem non_mapping_payload:
  assumes "truthy data" and "\<forall>kvs. data \<noteq> JObj kvs"
  shows "\<exists>m. validate_input data = Inl (AttributeError m) \<and>
           m = ascii ([CHR 0x27] @ type_name data @ [CHR 0x27] @
                 '' object has no attribute '' @ [CHR 0x27] @ ''get'' @ [CHR 0x27]) \<and>
           preprocess_for_textrank lower fdiv kiwi rid data =
             (Error (prefix_internal @ m) rid, 500)"
proof -
  let ?m = "ascii ([CHR 0x27] @ type_name data @ [CHR 0x27] @
                 '' object has no attribute '' @ [CHR 0x27] @ ''get'' @ [CHR 0x27])"
  from assms(2) have "json_get data key_text JNull = Inl (AttributeError ?m)"
    by (cases data) simp_all
  with assms(1) have v: "validate_input data = Inl (AttributeError ?m)"
    by (simp add: validate_input_def)
  then have "preprocess_for_textrank lower fdiv kiwi rid data =
             (Error (prefix_internal @ ?m) rid, 500)"
    by (simp add: preprocess_for_textrank_def try_block_def)
  with v show ?thesis by blast
qed

theorem non_mapping_payload_witness:
  "truthy (JArr [JInt 1]) \<and>
   validate_input (JArr [JInt 1]) =
     Inl (AttributeError
       (ascii ([CHR 0x27] @ ''list'' @ [CHR 0x27] @ '' object has no attribute '' @
               [CHR 0x27] @ ''get'' @ [CHR 0x27]))) \<and>
   preprocess_for_textrank ascii_lower exact_quotient example_kiwi example_id (JArr [JInt 1]) =
     (Error (prefix_internal @
        ascii ([CHR 0x27] @ ''list'' @ [CHR 0x27] @ '' object has no attribute '' @
               [CHR 0x27] @ ''get'' @ [CHR 0x27])) example_id, 500) \<and>
   truthy (JStr (ascii ''text'')) \<and>
   preprocess_for_textrank ascii_lower exact_quotient example_kiwi example_id
       (JStr (ascii ''text'')) =
     (Error (prefix_internal @
        ascii ([CHR 0x27] @ ''str'' @ [CHR 0x27] @ '' object has no attribute '' @
               [CHR 0x27] @ ''get'' @ [CHR 0x27])) example_id, 500)"
proof -
  have t: "truthy (JArr [JInt 1])" by simp
  have n: "\<forall>kvs. JArr [JInt 1] \<noteq> JObj kvs" by simp
  have t': "truthy (JStr (ascii ''text''))" by (simp add: ascii_def)
  have n': "\<forall>kvs. JStr (ascii ''text'') \<noteq> JObj kvs" by simp
  from non_mapping_payload [OF t n, of ascii_lower exact_quotient example_kiwi example_id]
    non_mapping_payload [OF t' n', of ascii_lower exact_quotient example_kiwi example_id]
    t t'
  show ?thesis by simp
qed

end
